theory Spec2Isabelle
  imports Main "HOL-Library.Sublist"
begin

section \<open>The centralized site data (\<^verbatim>\<open>SITE_DATA\<close>)\<close>

text \<open>
  Strings of the site are modelled as HOL strings. The few characters outside ASCII that
  occur in the literals are written as their UTF-8 bytes.

  \<^verbatim>\<open>SITE_DATA\<close> is one object literal; each nested object is a record. The object
  \<^verbatim>\<open>SITE_DATA.features\<close> is kept as the list of its (key, value) pairs, in the order
  in which the literal lists them, which is the order JavaScript enumerates them in.
\<close>

record Stats =
  guidelines :: nat
  categories :: nat
  languages :: nat
  assistants :: nat

record FeatureText =
  title :: string
  description :: string

record Github =
  url :: string
  owner :: string
  repo :: string

record Npm =
  url :: string
  package :: string

record Meta = FeatureText +
  author :: string

record SiteData =
  version :: string
  stats :: Stats
  languages :: "string list"
  assistants :: "string list"
  categories :: "string list"
  features :: "(string \<times> FeatureText) list"
  github :: Github
  npm :: Npm
  meta :: Meta

definition SITE_DATA :: SiteData where
  "SITE_DATA =
    \<lparr> version = ''1.0'',
      stats = \<lparr> guidelines = 91, Stats.categories = 12, Stats.languages = 9, Stats.assistants = 5 \<rparr>,
      languages =
        [ ''TypeScript'', ''JavaScript'', ''Python'', ''Go'', ''Rust'', ''Java'', ''C#'',
          ''Ruby'', ''Dart'', ''Swift'' ],
      assistants =
        [ ''Claude Code'', ''GitHub Copilot'', ''Gemini'', ''Codex'', ''Antigravity'' ],
      categories =
        [ ''Language'', ''Architecture'', ''Testing'', ''Security'', ''Performance'',
          ''Database'', ''API Design'', ''Code Style'', ''Error Handling'', ''DevOps'',
          ''Best Practices'', ''Design Patterns'' ],
      features =
        [ (''multiAssistant'',
            \<lparr> title = ''Multi-Assistant Support'',
              description = ''Supports Claude Code, GitHub Copilot, Gemini, Antigravity, and Codex out of the box.'' \<rparr>),
          (''guidelines'',
            \<lparr> title = ''91 Guidelines'',
              description = ''Comprehensive coverage across 12 categories including Security, API Design, and Performance.'' \<rparr>),
          (''interactiveCLI'',
            \<lparr> title = ''Interactive CLI Wizard'',
              description = ''Professional setup wizard with smart defaults, back navigation, and auto-detection.'' \<rparr>),
          (''hooksSubAgents'',
            \<lparr> title = ''Hooks & Sub-Agents'',
              description = ''Auto-generates verification agents and hooks specifically for Claude Code workflows.'' \<rparr>),
          (''architectureAware'',
            \<lparr> title = ''Architecture Aware'',
              description = ''Tailors guidelines for Microservices, Hexagonal, Modular Monoliths, and Event-Driven systems.'' \<rparr>),
          (''zeroDependencies'',
            \<lparr> title = ''Zero Dependencies'',
              description = ''Self-contained binary with all guideline data embedded. Works completely offline.'' \<rparr>) ],
      github =
        \<lparr> Github.url = ''https://github.com/lpsandaruwan/aicgen'',
          owner = ''lpsandaruwan'', repo = ''aicgen'' \<rparr>,
      npm =
        \<lparr> Npm.url = ''https://www.npmjs.com/package/@aicgen/aicgen'',
          package = ''@aicgen/aicgen'' \<rparr>,
      meta =
        \<lparr> title = ''aicgen - AI Config Generator'',
          description = ''Configuration generator for AI coding assistants. Make your project AI-ready in seconds.'',
          author = ''Lahiru Sandaruwan'' \<rparr> \<rparr>"


section \<open>Shared types (\<^verbatim>\<open>src/types.ts\<close>)\<close>

text \<open>
  The icons are the components imported from \<^verbatim>\<open>lucide-react\<close>; only their identity
  matters here. A \<^verbatim>\<open>Feature\<close> has a title, a description and an icon.
\<close>

datatype LucideIcon =
  Layers | Shield | Zap | Box | Code | Cpu | Copy | Check | Download

record Feature = FeatureText +
  icon :: LucideIcon

datatype InstallPlatform = npm | windows | mac | linux


section \<open>The Features section\<close>

definition features :: "Feature list" where
  "features =
    [ \<lparr> title = ''Multi-Assistant Support'',
        description = ''Supports Claude Code, GitHub Copilot, Gemini, Antigravity, and Codex out of the box.'',
        icon = Cpu \<rparr>,
      \<lparr> title = ''75+ Guidelines'',
        description = ''Comprehensive coverage across 12 categories including Security, API Design, and Performance.'',
        icon = Shield \<rparr>,
      \<lparr> title = ''Interactive CLI Wizard'',
        description = ''Professional setup wizard with smart defaults, back navigation, and auto-detection.'',
        icon = Zap \<rparr>,
      \<lparr> title = ''Hooks & Sub-Agents'',
        description = ''Auto-generates verification agents and hooks specifically for Claude Code workflows.'',
        icon = Code \<rparr>,
      \<lparr> title = ''Architecture Aware'',
        description = ''Tailors guidelines for Microservices, Hexagonal, Modular Monoliths, and Event-Driven systems.'',
        icon = Layers \<rparr>,
      \<lparr> title = ''Zero Dependencies'',
        description = ''Self-contained binary with all guideline data embedded. Works completely offline.'',
        icon = Box \<rparr> ]"

text \<open>
  One card of the grid: the element built by the callback of \<^verbatim>\<open>features.map\<close>, reduced to
  its React key and the three things it shows (the icon, the \<^verbatim>\<open>h3\<close> and the \<^verbatim>\<open>p\<close>).
\<close>

record FeatureCard =
  card_key :: nat
  card_icon :: LucideIcon
  card_h3 :: string
  card_p :: string

definition feature_card :: "Feature \<Rightarrow> nat \<Rightarrow> FeatureCard" where
  "feature_card feature index =
     \<lparr> card_key = index, card_icon = icon feature,
       card_h3 = title feature, card_p = description feature \<rparr>"

text \<open>\<^verbatim>\<open>features.map((feature, index) => ...)\<close>: the callback runs on every element with its index.\<close>

definition Features :: "FeatureCard list" where
  "Features = map (\<lambda>(feature, index). feature_card feature index)
                  (zip features [0 ..< length features])"


section \<open>The Navbar\<close>

record Navbar_state =
  isOpen :: bool

record NavLink =
  name :: string
  href :: string

definition navLinks :: "NavLink list" where
  "navLinks =
    [ \<lparr> name = ''Features'', href = ''#features'' \<rparr>,
      \<lparr> name = ''How It Works'', href = ''#how-it-works'' \<rparr>,
      \<lparr> name = ''Installation'', href = ''#installation'' \<rparr> ]"

text \<open>\<^verbatim>\<open>useState(false)\<close>\<close>

definition Navbar_init :: Navbar_state where
  "Navbar_init = \<lparr> isOpen = False \<rparr>"

text \<open>
  The menu button: \<^verbatim>\<open>onClick={() => setIsOpen(!isOpen)}\<close>. The handler is a closure made
  by a render, and the \<^verbatim>\<open>isOpen\<close> in it is the value the component had in that render:
  \<open>rendered\<close> is the state the button was rendered from, \<open>s\<close> the state at the click. The
  two are the same once React has rendered the component again after the last update.
\<close>

definition click_menu_button :: "Navbar_state \<Rightarrow> Navbar_state \<Rightarrow> Navbar_state" where
  "click_menu_button rendered s = s\<lparr> isOpen := \<not> isOpen rendered \<rparr>"

text \<open>
  A link of the mobile menu, built from \<^verbatim>\<open>navLinks\<close>:
  \<^verbatim>\<open>onClick={() => setIsOpen(false)}\<close>. The handler is the same for every link.
  (The anchor ``GitHub Repo'' that follows them in the menu is not an entry of
  \<^verbatim>\<open>navLinks\<close> and has no click handler; it opens the repository in a new tab.)
\<close>

definition click_mobile_link :: "NavLink \<Rightarrow> Navbar_state \<Rightarrow> Navbar_state" where
  "click_mobile_link link s = s\<lparr> isOpen := False \<rparr>"


section \<open>The installation tabs\<close>

record Tab =
  id :: InstallPlatform
  label :: string

definition tabs :: "Tab list" where
  "tabs =
    [ \<lparr> id = npm, label = ''npm (Rec.)'' \<rparr>,
      \<lparr> id = windows, label = ''Windows'' \<rparr>,
      \<lparr> id = mac, label = ''macOS'' \<rparr>,
      \<lparr> id = linux, label = ''Linux'' \<rparr> ]"


section \<open>Timers of the browser\<close>

text \<open>
  \<^verbatim>\<open>setTimeout\<close>, \<^verbatim>\<open>setInterval\<close>, \<^verbatim>\<open>clearTimeout\<close> and \<^verbatim>\<open>clearInterval\<close> are not
  code of the site; they are modelled after the timer initialisation steps of the HTML
  standard. The window keeps a clock (in ms), the next free timer id and the list of
  active timers, in the order in which they were started. A callback is a value of a
  type \<open>'cb\<close> that each component chooses: the closures it passes to the timer functions.
\<close>

record 'cb timer =
  tid :: nat
  due :: nat
  callback :: 'cb
  every :: "nat option"

record 'cb event_loop =
  now :: nat
  next_id :: nat
  pending :: "'cb timer list"

definition setTimeout ::
  "'cb \<Rightarrow> nat \<Rightarrow> ('cb, 'm) event_loop_scheme \<Rightarrow> nat \<times> ('cb, 'm) event_loop_scheme" where
  "setTimeout cb ms w =
     (next_id w,
      w\<lparr> pending := pending w @ [\<lparr> tid = next_id w, due = now w + ms, callback = cb, every = None \<rparr>],
         next_id := Suc (next_id w) \<rparr>)"

definition setInterval ::
  "'cb \<Rightarrow> nat \<Rightarrow> ('cb, 'm) event_loop_scheme \<Rightarrow> nat \<times> ('cb, 'm) event_loop_scheme" where
  "setInterval cb ms w =
     (next_id w,
      w\<lparr> pending := pending w @ [\<lparr> tid = next_id w, due = now w + ms, callback = cb, every = Some ms \<rparr>],
         next_id := Suc (next_id w) \<rparr>)"

text \<open>Timeouts and intervals share one pool of ids, and clearing an id that is not active does nothing.\<close>

definition clearTimeout :: "nat \<Rightarrow> ('cb, 'm) event_loop_scheme \<Rightarrow> ('cb, 'm) event_loop_scheme" where
  "clearTimeout i w = w\<lparr> pending := filter (\<lambda>t. tid t \<noteq> i) (pending w) \<rparr>"

definition clearInterval :: "nat \<Rightarrow> ('cb, 'm) event_loop_scheme \<Rightarrow> ('cb, 'm) event_loop_scheme" where
  "clearInterval i w = clearTimeout i w"

text \<open>
  The timer that runs next: the one that is due first and, among timers due at the same
  time, the one that was started first.
\<close>

fun earliest :: "'cb timer \<Rightarrow> 'cb timer list \<Rightarrow> 'cb timer" where
  "earliest t [] = t"
| "earliest t (u # us) = earliest (if due u < due t then u else t) us"

definition next_timer :: "'cb timer list \<Rightarrow> 'cb timer option" where
  "next_timer ts = (case ts of [] \<Rightarrow> None | t # us \<Rightarrow> Some (earliest t us))"

text \<open>
  Browsers differ in when an interval is due again. By the HTML standard the timer is
  started anew when its callback has run, so the next run is due one period after that
  moment (\<open>FromCallback\<close>). Browsers that keep intervals free of drift count the period from
  the time the last run was due, however late it was (\<open>FixedCadence\<close>).
\<close>

datatype interval_policy = FromCallback | FixedCadence

text \<open>
  One turn of the event loop runs the callback of the next timer, \<open>late\<close> ms after it
  became due (the browser promises no less than the delay asked for, and no more).
  A timeout leaves the list of active timers; an interval is started again, with the
  same id, when its callback has run. With no active timer nothing ever runs: \<open>None\<close>.
\<close>

definition fire ::
  "interval_policy \<Rightarrow>
   ('cb \<Rightarrow> ('cb, 'm) event_loop_scheme \<Rightarrow> ('cb, 'm) event_loop_scheme) \<Rightarrow> nat \<Rightarrow>
   ('cb, 'm) event_loop_scheme \<Rightarrow> ('cb, 'm) event_loop_scheme option" where
  "fire policy run late w =
     (case next_timer (pending w) of
        None \<Rightarrow> None
      | Some t \<Rightarrow>
          let w1 = w\<lparr> now := max (now w) (due t) + late, pending := remove1 t (pending w) \<rparr>;
              w2 = run (callback t) w1
          in Some (case every t of
                     None \<Rightarrow> w2
                   | Some ms \<Rightarrow>
                       w2\<lparr> pending := pending w2 @
                             [t\<lparr> due := (case policy of
                                           FromCallback \<Rightarrow> now w2 + ms
                                         | FixedCadence \<Rightarrow> due t + ms) \<rparr>] \<rparr>))"


section \<open>The Installation section\<close>

subsection \<open>Strings\<close>

text \<open>
  \<^verbatim>\<open>String.prototype.toLowerCase\<close> on the bytes of a string: the letters A to Z become
  a to z, every other byte stays (a user-agent string is a header value, in ASCII).
  \<^verbatim>\<open>String.prototype.includes\<close> looks for the search string at every position, from
  the left.
\<close>

definition toLowerCase_char :: "char \<Rightarrow> char" where
  "toLowerCase_char c =
     (let n = (of_char c :: nat) in if 65 \<le> n \<and> n \<le> 90 then char_of (n + 32) else c)"

definition toLowerCase :: "string \<Rightarrow> string" where
  "toLowerCase s = map toLowerCase_char s"

fun string_includes :: "string \<Rightarrow> string \<Rightarrow> bool" where
  "string_includes [] searchString = (searchString = [])"
| "string_includes (c # cs) searchString =
     (prefix searchString (c # cs) \<or> string_includes cs searchString)"

subsection \<open>State and handlers\<close>

text \<open>
  The two \<^verbatim>\<open>useState\<close> cells of the component, \<^verbatim>\<open>navigator.clipboard\<close>, and the timers
  of the window. The only closure the component passes to \<^verbatim>\<open>setTimeout\<close> is
  \<^verbatim>\<open>() => setCopied(false)\<close>.

  \<^verbatim>\<open>navigator.clipboard\<close> is \<open>Some\<close> of the text on the system clipboard, or \<open>None\<close>
  where the browser does not provide the Clipboard API (a page that is not served from a
  secure origin): there \<^verbatim>\<open>navigator.clipboard\<close> is \<^verbatim>\<open>undefined\<close>.
\<close>

datatype Installation_callback = ResetCopied

datatype error = TypeError

record Installation_state = "Installation_callback event_loop" +
  activeTab :: InstallPlatform
  copied :: bool
  clipboard :: "string option"

text \<open>\<^verbatim>\<open>useState<InstallPlatform>('npm')\<close> and \<^verbatim>\<open>useState(false)\<close>, in a window at time \<open>t\<close>.\<close>

definition Installation_init :: "nat \<Rightarrow> string option \<Rightarrow> Installation_state" where
  "Installation_init t clip =
     \<lparr> now = t, next_id = 1, pending = [], activeTab = npm, copied = False, clipboard = clip \<rparr>"

text \<open>The effect that runs once on mount, given \<^verbatim>\<open>navigator.userAgent\<close>.\<close>

definition detect_platform :: "string \<Rightarrow> Installation_state \<Rightarrow> Installation_state" where
  "detect_platform userAgent s =
     (let ua = toLowerCase userAgent in
      if string_includes ua ''win'' then s\<lparr> activeTab := windows \<rparr>
      else if string_includes ua ''mac'' then s\<lparr> activeTab := mac \<rparr>
      else if string_includes ua ''linux'' then s\<lparr> activeTab := linux \<rparr>
      else s\<lparr> activeTab := npm \<rparr>)"

text \<open>
  \<^verbatim>\<open>handleCopy\<close>. Its first statement, \<^verbatim>\<open>navigator.clipboard.writeText(text)\<close>, has no
  guard: where \<^verbatim>\<open>navigator.clipboard\<close> is undefined it throws a \<^verbatim>\<open>TypeError\<close>, and the
  two statements after it do not run. Otherwise the text is written and the promise that
  \<^verbatim>\<open>writeText\<close> returns is dropped.
\<close>

definition handleCopy :: "string \<Rightarrow> Installation_state \<Rightarrow> error + Installation_state" where
  "handleCopy text s =
     (case clipboard s of
        None \<Rightarrow> Inl TypeError
      | Some old \<Rightarrow>
          let s1 = s\<lparr> clipboard := Some text \<rparr>;
              s2 = s1\<lparr> copied := True \<rparr>
          in Inr (snd (setTimeout ResetCopied 2000 s2)))"

definition Installation_run :: "Installation_callback \<Rightarrow> Installation_state \<Rightarrow> Installation_state" where
  "Installation_run cb s = (case cb of ResetCopied \<Rightarrow> s\<lparr> copied := False \<rparr>)"

text \<open>\<^verbatim>\<open>onClick={() => setActiveTab(tab.id)}\<close>\<close>

definition click_tab :: "Tab \<Rightarrow> Installation_state \<Rightarrow> Installation_state" where
  "click_tab tab s = s\<lparr> activeTab := id tab \<rparr>"

subsection \<open>What the npm tab shows\<close>

text \<open>
  The two command blocks of \<^verbatim>\<open>case 'npm'\<close> of \<^verbatim>\<open>renderContent\<close>: the text inside
  \<^verbatim>\<open><code>\<close>, the argument that the button's \<^verbatim>\<open>onClick\<close> hands to \<^verbatim>\<open>handleCopy\<close>, and
  the icon inside the button.
\<close>

record CommandBlock =
  code :: string
  onClick_copies :: string
  button_icon :: LucideIcon

definition npm_install_block :: "Installation_state \<Rightarrow> CommandBlock" where
  "npm_install_block s =
     \<lparr> code = ''npm install -g @aicgen/aicgen'',
       onClick_copies = ''npm install -g @aicgen/aicgen'',
       button_icon = (if copied s then Check else Copy) \<rparr>"

definition npx_block :: "Installation_state \<Rightarrow> CommandBlock" where
  "npx_block s =
     \<lparr> code = ''npx @aicgen/aicgen init'',
       onClick_copies = ''npx @aicgen/aicgen init'',
       button_icon = Copy \<rparr>"

text \<open>
  A click on the button of a block runs \<^verbatim>\<open>handleCopy\<close> on the block's command. An error
  thrown by the handler is not caught anywhere; it leaves the component as it was.
\<close>

definition click_copy :: "CommandBlock \<Rightarrow> Installation_state \<Rightarrow> Installation_state" where
  "click_copy block s =
     (case handleCopy (onClick_copies block) s of Inl e \<Rightarrow> s | Inr s' \<Rightarrow> s')"


section \<open>The Terminal animation\<close>

text \<open>
  The steps of the animation. The field \<^verbatim>\<open>text\<close> of a step is called \<open>step_text\<close> here;
  \<^verbatim>\<open>color\<close> is optional.
\<close>

record Step =
  step_text :: string
  delay :: nat
  color :: "string option"

definition check_mark :: string where
  "check_mark = [CHR 0xE2, CHR 0x9C, CHR 0x94]"

definition chevron :: string where
  "chevron = [CHR 0xE2, CHR 0x80, CHR 0xBA]"

definition steps :: "Step list" where
  "steps =
    [ \<lparr> step_text = ''> navigate to project...'', delay = 500, color = None \<rparr>,
      \<lparr> step_text = ''> aicgen init'', delay = 1500, color = None \<rparr>,
      \<lparr> step_text = check_mark @ ''  Analyzing project structure...'', delay = 2500,
        color = Some ''text-blue-400'' \<rparr>,
      \<lparr> step_text = ''? Select AI Assistant '' @ chevron @ '' Claude Code'', delay = 3500,
        color = Some ''text-primary'' \<rparr>,
      \<lparr> step_text = ''? Choose Architecture '' @ chevron @ '' Modular Monolith'', delay = 4500,
        color = Some ''text-primary'' \<rparr>,
      \<lparr> step_text = check_mark @ ''  Configuration generated successfully!'', delay = 5500,
        color = Some ''text-success'' \<rparr>,
      \<lparr> step_text = ''  + .claude/settings.json'', delay = 6000, color = Some ''text-textGray'' \<rparr>,
      \<lparr> step_text = ''  + .claude/guidelines/architecture.md'', delay = 6200,
        color = Some ''text-textGray'' \<rparr>,
      \<lparr> step_text = ''  + .claude/agents/checker.md'', delay = 6400,
        color = Some ''text-textGray'' \<rparr>,
      \<lparr> step_text = ''> Ready to code.'', delay = 7000, color = Some ''text-white'' \<rparr> ]"

text \<open>
  The closures that the effect hands to the timer functions:
  \<^verbatim>\<open>() => setLines((prev) => [...prev, step.text])\<close>, one for each step, and
  \<^verbatim>\<open>runAnimation\<close> itself, which the interval calls.
\<close>

datatype Terminal_callback = Reveal string | RunAnimation

text \<open>
  The state cell \<^verbatim>\<open>lines\<close>, the variables \<^verbatim>\<open>timeouts\<close> and \<^verbatim>\<open>loop\<close> of the effect's
  closure, and the timers of the window.
\<close>

record Terminal_state = "Terminal_callback event_loop" +
  lines :: "string list"
  timeouts :: "nat list"
  loop :: nat

text \<open>\<^verbatim>\<open>useState<string[]>([])\<close>: the component as first rendered, at time \<open>t\<close>, before its effect runs.\<close>

definition Terminal_init :: "nat \<Rightarrow> nat \<Rightarrow> Terminal_state" where
  "Terminal_init t i = \<lparr> now = t, next_id = i, pending = [], lines = [], timeouts = [], loop = 0 \<rparr>"

text \<open>The body of \<^verbatim>\<open>steps.forEach\<close>: start the timeout of one step and push its id.\<close>

definition schedule_step :: "Step \<Rightarrow> Terminal_state \<Rightarrow> Terminal_state" where
  "schedule_step step s =
     (let (timeout, s') = setTimeout (Reveal (step_text step)) (delay step) s
      in s'\<lparr> timeouts := timeouts s' @ [timeout] \<rparr>)"

definition runAnimation :: "Terminal_state \<Rightarrow> Terminal_state" where
  "runAnimation s = foldl (\<lambda>s step. schedule_step step s) (s\<lparr> lines := [] \<rparr>) steps"

definition Terminal_run :: "Terminal_callback \<Rightarrow> Terminal_state \<Rightarrow> Terminal_state" where
  "Terminal_run cb s =
     (case cb of
        Reveal text \<Rightarrow> s\<lparr> lines := lines s @ [text] \<rparr>
      | RunAnimation \<Rightarrow> runAnimation s)"

text \<open>The effect: a fresh \<^verbatim>\<open>timeouts\<close> array, one run of the animation, and the interval.\<close>

definition Terminal_mount :: "Terminal_state \<Rightarrow> Terminal_state" where
  "Terminal_mount s =
     (let s1 = s\<lparr> timeouts := [] \<rparr>;
          s2 = runAnimation s1;
          (i, s3) = setInterval RunAnimation 9000 s2
      in s3\<lparr> loop := i \<rparr>)"

text \<open>The function that the effect returns: \<^verbatim>\<open>clearInterval(loop); timeouts.forEach(clearTimeout)\<close>.\<close>

definition Terminal_cleanup :: "Terminal_state \<Rightarrow> Terminal_state" where
  "Terminal_cleanup s = foldl (\<lambda>s i. clearTimeout i s) (clearInterval (loop s) s) (timeouts s)"

text \<open>
  The states of the component: it is rendered, its effect runs, timers fire, and React
  runs the cleanup when the component leaves the page. React may run the effect again
  after the cleanup (so it does for every component in strict mode), never without it.
  The browser is described by its \<open>policy\<close> for intervals and by \<open>allowed\<close>, which says how
  late the next callback may run in a state.
\<close>

inductive Terminal_reachable ::
  "interval_policy \<Rightarrow> (Terminal_state \<Rightarrow> nat \<Rightarrow> bool) \<Rightarrow> Terminal_state \<Rightarrow> bool"
  for policy :: interval_policy and allowed :: "Terminal_state \<Rightarrow> nat \<Rightarrow> bool" where
  rendered: "Terminal_reachable policy allowed (Terminal_init t i)"
| mounted: "Terminal_reachable policy allowed (Terminal_mount (Terminal_init t i))"
| fired: "Terminal_reachable policy allowed s \<Longrightarrow> allowed s late \<Longrightarrow>
          fire policy Terminal_run late s = Some s' \<Longrightarrow> Terminal_reachable policy allowed s'"
| unmounted: "Terminal_reachable policy allowed s \<Longrightarrow>
              Terminal_reachable policy allowed (Terminal_cleanup s)"
| remounted: "Terminal_reachable policy allowed s \<Longrightarrow>
              Terminal_reachable policy allowed (Terminal_mount (Terminal_cleanup s))"

text \<open>A browser that may run every callback as late as it likes.\<close>

definition any_lateness :: "Terminal_state \<Rightarrow> nat \<Rightarrow> bool" where
  "any_lateness s late = True"

text \<open>
  A browser in which the animation restarts in time: either the interval is counted from
  the run of its callback, or the callback of the interval runs less than 2000 ms after
  it was due. (The last timeout of an iteration is due 7000 ms after the iteration
  started, and 7000 + 2000 is the period of the interval.)
\<close>

definition restarts_in_time :: "interval_policy \<Rightarrow> Terminal_state \<Rightarrow> nat \<Rightarrow> bool" where
  "restarts_in_time policy s late =
     (case policy of
        FromCallback \<Rightarrow> True
      | FixedCadence \<Rightarrow>
          (case next_timer (pending s) of
             None \<Rightarrow> True
           | Some t \<Rightarrow>
               (case callback t of
                  Reveal text \<Rightarrow> True
                | RunAnimation \<Rightarrow> max (now s) (due t) + late < due t + 2000)))"

text \<open>
  Several turns of the event loop in a row, the callbacks running as late as the list says
  (\<open>None\<close> when the browser does not allow that, or when no timer is left), and the state
  such a run ends in when the component was mounted at time 0 in a window whose next timer
  id is 1.
\<close>

fun turns ::
  "interval_policy \<Rightarrow> (Terminal_state \<Rightarrow> nat \<Rightarrow> bool) \<Rightarrow> nat list \<Rightarrow> Terminal_state \<Rightarrow>
   Terminal_state option" where
  "turns policy allowed [] s = Some s"
| "turns policy allowed (late # lates) s =
     (if allowed s late
      then (case fire policy Terminal_run late s of
              None \<Rightarrow> None
            | Some s' \<Rightarrow> turns policy allowed lates s')
      else None)"

definition Terminal_example ::
  "interval_policy \<Rightarrow> (Terminal_state \<Rightarrow> nat \<Rightarrow> bool) \<Rightarrow> nat list \<Rightarrow> Terminal_state" where
  "Terminal_example policy allowed lates =
     the (turns policy allowed lates (Terminal_mount (Terminal_init 0 1)))"

text \<open>
  What holds in every reachable state, whatever the browser does: every active timer is
  known to the cleanup by its id.
\<close>

definition Terminal_known :: "Terminal_state \<Rightarrow> bool" where
  "Terminal_known s = (\<forall>t \<in> set (pending s). tid t \<in> set (timeouts s) \<or> tid t = loop s)"

text \<open>
  What holds between two turns of the event loop when the animation restarts in time: the
  first \<open>k\<close> texts are shown, and either no timer is active, or the active timers are the
  timeouts of the steps still to come, all counted from the same start \<open>base\<close> of the
  iteration, followed by the interval, which is due at \<open>next\<close>, after all of them.
\<close>

definition timer_view :: "Terminal_callback timer \<Rightarrow> nat \<times> Terminal_callback \<times> nat option" where
  "timer_view t = (due t, callback t, every t)"

definition Terminal_inv :: "interval_policy \<Rightarrow> Terminal_state \<Rightarrow> bool" where
  "Terminal_inv policy s =
     (\<exists>k base next. k \<le> length steps \<and> lines s = take k (map step_text steps) \<and>
        (pending s = [] \<or>
         map timer_view (pending s) =
           map (\<lambda>st. (base + delay st, Reveal (step_text st), None)) (drop k steps) @
           [(next, RunAnimation, Some 9000)] \<and>
         base + 7000 < next \<and> (policy = FromCallback \<longrightarrow> next = base + 9000)))"


section \<open>Hyperlinks of the page\<close>

text \<open>
  For every component, the \<^verbatim>\<open>href\<close> of each \<^verbatim>\<open><a>\<close> element it renders, in document
  order. The navbar renders its links twice when the mobile menu is open; the installation
  section renders the links of the active tab. Features, HowItWorks, OutputPreview, Terminal
  and Logo render no \<^verbatim>\<open><a>\<close> element (the \<^verbatim>\<open>xmlns\<close> attribute of the logo's
  \<^verbatim>\<open><svg>\<close> names the SVG namespace; it is not a link).
\<close>

definition Navbar_hrefs :: "Navbar_state \<Rightarrow> string list" where
  "Navbar_hrefs s =
     (map href navLinks @ [''https://github.com/lpsandaruwan/aicgen'']) @
     (if isOpen s then map href navLinks @ [''https://github.com/lpsandaruwan/aicgen''] else [])"

definition Terminal_hrefs :: "string list" where
  "Terminal_hrefs = []"

definition Hero_hrefs :: "string list" where
  "Hero_hrefs = [''#installation'', ''https://github.com/lpsandaruwan/aicgen''] @ Terminal_hrefs"

definition Features_hrefs :: "string list" where
  "Features_hrefs = []"

definition HowItWorks_hrefs :: "string list" where
  "HowItWorks_hrefs = []"

definition OutputPreview_hrefs :: "string list" where
  "OutputPreview_hrefs = []"

definition renderContent_hrefs :: "InstallPlatform \<Rightarrow> string list" where
  "renderContent_hrefs tab =
     (case tab of
        npm \<Rightarrow> []
      | windows \<Rightarrow> [''https://github.com/lpsandaruwan/aicgen/releases/latest'']
      | mac \<Rightarrow> [''https://github.com/lpsandaruwan/aicgen/releases/latest'']
      | linux \<Rightarrow> [''https://github.com/lpsandaruwan/aicgen/releases/latest''])"

definition Installation_hrefs :: "Installation_state \<Rightarrow> string list" where
  "Installation_hrefs s = renderContent_hrefs (activeTab s)"

definition Footer_hrefs :: "string list" where
  "Footer_hrefs =
     [''https://github.com/lpsandaruwan/aicgen'', ''https://www.npmjs.com/package/@aicgen/aicgen'']"

definition App_hrefs :: "Navbar_state \<Rightarrow> Installation_state \<Rightarrow> string list" where
  "App_hrefs nav inst =
     Navbar_hrefs nav @ Hero_hrefs @ Features_hrefs @ HowItWorks_hrefs @ OutputPreview_hrefs @
     Installation_hrefs inst @ Footer_hrefs"

definition absolute_url :: "string \<Rightarrow> bool" where
  "absolute_url u = (prefix ''http://'' u \<or> prefix ''https://'' u)"

text \<open>The repository on the source-hosting site, its releases pages, and the package's registry page.\<close>

definition repository_or_registry :: "string \<Rightarrow> bool" where
  "repository_or_registry u =
     (u = ''https://github.com/lpsandaruwan/aicgen'' \<or>
      prefix ''https://github.com/lpsandaruwan/aicgen/releases'' u \<or>
      u = ''https://www.npmjs.com/package/@aicgen/aicgen'')"


section \<open>Properties\<close>

subsection \<open>Static content\<close>

text \<open>
  C3. The features array has exactly six elements, and the Features section renders
  exactly one card per element: six cards, the card at position \<open>i\<close> showing the title,
  description and icon of element \<open>i\<close>.
\<close>

theorem Features_six_cards:
  "length features = 6 \<and> length Features = 6 \<and>
   map card_h3 Features = map title features \<and>
   map card_p Features = map description features \<and>
   map card_icon Features = map icon features \<and>
   map card_key Features = [0, 1, 2, 3, 4, 5]"
  by (simp add: Features_def features_def feature_card_def upt_rec)

text \<open>
  C4. The ids of the tabs array are npm, windows, mac, linux, each once and in that order,
  and they are all the values of the type InstallPlatform.
\<close>

theorem tabs_ids:
  "map id tabs = [npm, windows, mac, linux] \<and> distinct (map id tabs) \<and>
   set (map id tabs) = (UNIV :: InstallPlatform set)"
proof -
  have ids: "map id tabs = [npm, windows, mac, linux]"
    by (simp add: tabs_def)
  have "(UNIV :: InstallPlatform set) = {npm, windows, mac, linux}"
    using InstallPlatform.exhaust by auto
  with ids show ?thesis by simp
qed

text \<open>
  C8. The six feature cards of the Features component against the six entries of
  \<^verbatim>\<open>SITE_DATA.features\<close>, pairwise and in order: the descriptions are the same, and so
  are the titles except the second, where the component has ``75+ Guidelines'' and the
  site data has ``91 Guidelines''. So the two lists of titles differ.
\<close>

theorem features_differ_from_SITE_DATA:
  "length features = length (SiteData.features SITE_DATA) \<and>
   map description features = map (description \<circ> snd) (SiteData.features SITE_DATA) \<and>
   title (features ! 1) = ''75+ Guidelines'' \<and>
   title (snd (SiteData.features SITE_DATA ! 1)) = ''91 Guidelines'' \<and>
   map title features \<noteq> map (title \<circ> snd) (SiteData.features SITE_DATA) \<and>
   (map title features) [1 := ''91 Guidelines''] =
     map (title \<circ> snd) (SiteData.features SITE_DATA)"
  by (simp add: features_def SITE_DATA_def)

text \<open>
  C9. The counts of \<^verbatim>\<open>SITE_DATA.stats\<close> against the lengths of the lists: categories
  (12) and assistants (5) agree with their lists, while \<^verbatim>\<open>stats.languages\<close> is 9 and the
  languages list has 10 entries.
\<close>

theorem stats_against_lists:
  "Stats.categories (stats SITE_DATA) = length (SiteData.categories SITE_DATA) \<and>
   Stats.assistants (stats SITE_DATA) = length (SiteData.assistants SITE_DATA) \<and>
   Stats.languages (stats SITE_DATA) = 9 \<and>
   length (SiteData.languages SITE_DATA) = 10 \<and>
   Stats.languages (stats SITE_DATA) \<noteq> length (SiteData.languages SITE_DATA)"
  by (simp add: SITE_DATA_def)

subsection \<open>The mobile menu\<close>

text \<open>
  C7. A click on the menu button sets isOpen to the negation of the value the component had
  when the button was rendered. When the component has been rendered from its current
  state, as React does after every update, the click negates isOpen, and a second click,
  on the button rendered after the first, restores the state the two started from,
  whatever it was. A click on a link of the mobile menu leaves the menu closed.
\<close>

theorem menu_toggle_after_render:
  "isOpen (click_menu_button rendered s) = (\<not> isOpen rendered) \<and>
   isOpen (click_menu_button s s) = (\<not> isOpen s) \<and>
   click_menu_button (click_menu_button s s) (click_menu_button s s) = s \<and>
   isOpen (click_mobile_link link s) = False"
  by (simp add: click_menu_button_def click_mobile_link_def)

text \<open>
  Without a render between them, two clicks run the same handler: the second sets the
  value the first has set, and the menu that was closed stays open.
\<close>

theorem menu_toggle_counterexample:
  "isOpen (click_menu_button Navbar_init (click_menu_button Navbar_init Navbar_init)) =
     isOpen (click_menu_button Navbar_init Navbar_init) \<and>
   click_menu_button Navbar_init (click_menu_button Navbar_init Navbar_init) \<noteq> Navbar_init"
  by (simp add: click_menu_button_def Navbar_init_def)

subsection \<open>Platform detection\<close>

lemma upper_codes:
  "map of_char ''ABCDEFGHIJKLMNOPQRSTUVWXYZ'' = [65 ..< (91::nat)]"
  by (simp add: upt_rec)

lemma toLowerCase_other:
  assumes "c \<notin> set ''ABCDEFGHIJKLMNOPQRSTUVWXYZ''"
  shows "toLowerCase_char c = c"
proof -
  have "(of_char c :: nat) \<notin> of_char ` set ''ABCDEFGHIJKLMNOPQRSTUVWXYZ''"
  proof
    assume "(of_char c :: nat) \<in> of_char ` set ''ABCDEFGHIJKLMNOPQRSTUVWXYZ''"
    then obtain d where d: "d \<in> set ''ABCDEFGHIJKLMNOPQRSTUVWXYZ''"
      and e: "(of_char c :: nat) = of_char d"
      by (rule imageE)
    from e have cd: "c = d" by simp
    from d have "c \<in> set ''ABCDEFGHIJKLMNOPQRSTUVWXYZ''" unfolding cd .
    with assms show False by (rule notE)
  qed
  then have "(of_char c :: nat) \<notin> set (map of_char ''ABCDEFGHIJKLMNOPQRSTUVWXYZ'')"
    unfolding set_map .
  then have "(of_char c :: nat) \<notin> set [65 ..< 91]"
    unfolding upper_codes .
  then have "\<not> (65 \<le> (of_char c :: nat) \<and> (of_char c :: nat) \<le> 90)"
    unfolding set_upt atLeastLessThan_iff by arith
  then show ?thesis
    by (auto simp add: toLowerCase_char_def Let_def)
qed

lemma string_includes_sublist: "string_includes s x = sublist x s"
  by (induction s) (simp_all add: sublist_Cons_right)

lemma toLowerCase_alphabet:
  "toLowerCase ''ABCDEFGHIJKLMNOPQRSTUVWXYZ'' = ''abcdefghijklmnopqrstuvwxyz''"
  by (simp add: toLowerCase_def toLowerCase_char_def char_of_def bit_Suc_0_iff)

text \<open>
  C5. Whatever the user-agent string is, the effect that runs on mount changes nothing but
  the active tab, and sets it by first match on the lowercased string: windows if it
  contains ``win'', otherwise mac if it contains ``mac'', otherwise linux if it contains
  ``linux'', otherwise npm. The detection is a total function, and the tab is one of the
  four values of InstallPlatform. Lowercasing works letter by letter: it turns each of the
  letters A to Z into the letter a to z at the same place of the alphabet and leaves every
  other character as it is.
\<close>

theorem platform_detection:
  "detect_platform ua s =
     s\<lparr> activeTab :=
          if sublist ''win'' (toLowerCase ua) then windows
          else if sublist ''mac'' (toLowerCase ua) then mac
          else if sublist ''linux'' (toLowerCase ua) then linux
          else npm \<rparr> \<and>
   activeTab (detect_platform ua s) \<in> {npm, windows, mac, linux} \<and>
   toLowerCase ''ABCDEFGHIJKLMNOPQRSTUVWXYZ'' = ''abcdefghijklmnopqrstuvwxyz'' \<and>
   (\<forall>c. c \<notin> set ''ABCDEFGHIJKLMNOPQRSTUVWXYZ'' \<longrightarrow> toLowerCase [c] = [c]) \<and>
   toLowerCase [] = [] \<and>
   (\<forall>xs ys. toLowerCase (xs @ ys) = toLowerCase xs @ toLowerCase ys) \<and>
   (\<forall>xs. length (toLowerCase xs) = length xs)"
proof -
  have "detect_platform ua s =
     s\<lparr> activeTab :=
          if sublist ''win'' (toLowerCase ua) then windows
          else if sublist ''mac'' (toLowerCase ua) then mac
          else if sublist ''linux'' (toLowerCase ua) then linux
          else npm \<rparr>"
    by (simp add: detect_platform_def string_includes_sublist Let_def)
  moreover from this have "activeTab (detect_platform ua s) \<in> {npm, windows, mac, linux}"
    by simp
  moreover have "\<forall>c. c \<notin> set ''ABCDEFGHIJKLMNOPQRSTUVWXYZ'' \<longrightarrow> toLowerCase [c] = [c]"
    using toLowerCase_other by (simp add: toLowerCase_def)
  moreover have "toLowerCase [] = []"
    "\<forall>xs ys. toLowerCase (xs @ ys) = toLowerCase xs @ toLowerCase ys"
    "\<forall>xs. length (toLowerCase xs) = length xs"
    by (simp_all add: toLowerCase_def)
  ultimately show ?thesis using toLowerCase_alphabet by (intro conjI)
qed

text \<open>User agents as browsers send them: the match needs the lowercasing.\<close>

theorem platform_detection_witness:
  "activeTab (detect_platform ''Mozilla/5.0 (Windows NT 10.0; Win64; x64) AppleWebKit/537.36''
     (Installation_init 0 None)) = windows \<and>
   activeTab (detect_platform ''Mozilla/5.0 (Macintosh; Intel Mac OS X 10_15_7) AppleWebKit/605.1.15''
     (Installation_init 0 None)) = mac \<and>
   activeTab (detect_platform ''Mozilla/5.0 (X11; Linux x86_64; rv:109.0) Gecko/20100101''
     (Installation_init 0 None)) = linux \<and>
   activeTab (detect_platform ''Mozilla/5.0 (PlayStation; PlayStation 5/2.26)''
     (Installation_init 0 None)) = npm \<and>
   CHR ''7'' \<notin> set ''ABCDEFGHIJKLMNOPQRSTUVWXYZ'' \<and> toLowerCase ''7'' = ''7''"
proof -
  have lower:
    "toLowerCase ''Mozilla/5.0 (Windows NT 10.0; Win64; x64) AppleWebKit/537.36'' =
       ''mozilla/5.0 (windows nt 10.0; win64; x64) applewebkit/537.36''"
    "toLowerCase ''Mozilla/5.0 (Macintosh; Intel Mac OS X 10_15_7) AppleWebKit/605.1.15'' =
       ''mozilla/5.0 (macintosh; intel mac os x 10_15_7) applewebkit/605.1.15''"
    "toLowerCase ''Mozilla/5.0 (X11; Linux x86_64; rv:109.0) Gecko/20100101'' =
       ''mozilla/5.0 (x11; linux x86_64; rv:109.0) gecko/20100101''"
    "toLowerCase ''Mozilla/5.0 (PlayStation; PlayStation 5/2.26)'' =
       ''mozilla/5.0 (playstation; playstation 5/2.26)''"
    by (simp_all add: toLowerCase_def toLowerCase_char_def char_of_def bit_Suc_0_iff)
  have subs:
    "sublist ''win'' ''mozilla/5.0 (windows nt 10.0; win64; x64) applewebkit/537.36''"
    "\<not> sublist ''win'' ''mozilla/5.0 (macintosh; intel mac os x 10_15_7) applewebkit/605.1.15''"
    "sublist ''mac'' ''mozilla/5.0 (macintosh; intel mac os x 10_15_7) applewebkit/605.1.15''"
    "\<not> sublist ''win'' ''mozilla/5.0 (x11; linux x86_64; rv:109.0) gecko/20100101''"
    "\<not> sublist ''mac'' ''mozilla/5.0 (x11; linux x86_64; rv:109.0) gecko/20100101''"
    "sublist ''linux'' ''mozilla/5.0 (x11; linux x86_64; rv:109.0) gecko/20100101''"
    "\<not> sublist ''win'' ''mozilla/5.0 (playstation; playstation 5/2.26)''"
    "\<not> sublist ''mac'' ''mozilla/5.0 (playstation; playstation 5/2.26)''"
    "\<not> sublist ''linux'' ''mozilla/5.0 (playstation; playstation 5/2.26)''"
    by (simp_all add: sublist_Cons_right)
  have n: "CHR ''7'' \<notin> set ''ABCDEFGHIJKLMNOPQRSTUVWXYZ''"
    by simp
  note p = platform_detection
  have "toLowerCase ''7'' = ''7''"
    using p [of "[]" "Installation_init 0 None"] n by (elim conjE allE [of _ "CHR ''7''"]) simp
  moreover have
    "activeTab (detect_platform ''Mozilla/5.0 (Windows NT 10.0; Win64; x64) AppleWebKit/537.36''
       (Installation_init 0 None)) = windows"
    "activeTab (detect_platform ''Mozilla/5.0 (Macintosh; Intel Mac OS X 10_15_7) AppleWebKit/605.1.15''
       (Installation_init 0 None)) = mac"
    "activeTab (detect_platform ''Mozilla/5.0 (X11; Linux x86_64; rv:109.0) Gecko/20100101''
       (Installation_init 0 None)) = linux"
    "activeTab (detect_platform ''Mozilla/5.0 (PlayStation; PlayStation 5/2.26)''
       (Installation_init 0 None)) = npm"
    unfolding p [THEN conjunct1] lower by (simp_all add: subs)
  ultimately show ?thesis using n by (intro conjI)
qed

subsection \<open>Outbound links\<close>

lemma App_hrefs_subset:
  "set (App_hrefs nav inst) \<subseteq>
     {''#features'', ''#how-it-works'', ''#installation'',
      ''https://github.com/lpsandaruwan/aicgen'',
      ''https://github.com/lpsandaruwan/aicgen/releases/latest'',
      ''https://www.npmjs.com/package/@aicgen/aicgen''}"
  unfolding App_hrefs_def Navbar_hrefs_def Hero_hrefs_def Terminal_hrefs_def Features_hrefs_def
    HowItWorks_hrefs_def OutputPreview_hrefs_def Installation_hrefs_def renderContent_hrefs_def
    Footer_hrefs_def navLinks_def
  by (cases "activeTab inst"; cases "isOpen nav"; simp)

lemma fragment_not_absolute:
  "\<not> absolute_url ''#features''"
  "\<not> absolute_url ''#how-it-works''"
  "\<not> absolute_url ''#installation''"
  by (simp_all add: absolute_url_def)

lemma known_destinations:
  "repository_or_registry ''https://github.com/lpsandaruwan/aicgen''"
  "repository_or_registry ''https://github.com/lpsandaruwan/aicgen/releases/latest''"
  "repository_or_registry ''https://www.npmjs.com/package/@aicgen/aicgen''"
  by (simp_all add: repository_or_registry_def)

lemma listed_destinations:
  "\<forall>u \<in> {''#features'', ''#how-it-works'', ''#installation'',
      ''https://github.com/lpsandaruwan/aicgen'',
      ''https://github.com/lpsandaruwan/aicgen/releases/latest'',
      ''https://www.npmjs.com/package/@aicgen/aicgen''}.
     absolute_url u \<longrightarrow> repository_or_registry u"
  unfolding ball_simps
  by (intro conjI impI TrueI known_destinations
      | elim notE [OF fragment_not_absolute(1)] notE [OF fragment_not_absolute(2)]
          notE [OF fragment_not_absolute(3)])+

text \<open>
  C6. In every state of the page (mobile menu open or closed, any active installation tab),
  every absolute (http or https) URL that is the \<^verbatim>\<open>href\<close> of a rendered link is the
  repository on the source-hosting site, one of its releases pages, or the package's page
  on the registry.
\<close>

theorem external_links:
  assumes "u \<in> set (App_hrefs nav inst)" and "absolute_url u"
  shows "repository_or_registry u"
proof -
  note App_hrefs_subset [of nav inst]
  then have "u \<in> {''#features'', ''#how-it-works'', ''#installation'',
      ''https://github.com/lpsandaruwan/aicgen'',
      ''https://github.com/lpsandaruwan/aicgen/releases/latest'',
      ''https://www.npmjs.com/package/@aicgen/aicgen''}"
    using assms(1) by (rule subsetD)
  with listed_destinations have "absolute_url u \<longrightarrow> repository_or_registry u"
    by (rule bspec)
  then show ?thesis using assms(2) by (rule mp)
qed

theorem external_links_witness:
  "''https://github.com/lpsandaruwan/aicgen/releases/latest''
     \<in> set (App_hrefs \<lparr> isOpen = True \<rparr>
              (detect_platform ''Mozilla/5.0 (X11; Linux x86_64)'' (Installation_init 0 None)))
   \<and> absolute_url ''https://github.com/lpsandaruwan/aicgen/releases/latest''
   \<and> repository_or_registry ''https://github.com/lpsandaruwan/aicgen/releases/latest''"
proof -
  have tab: "activeTab (detect_platform ''Mozilla/5.0 (X11; Linux x86_64)''
               (Installation_init 0 None)) = linux"
    by (simp add: detect_platform_def Let_def toLowerCase_def toLowerCase_char_def char_of_def
        bit_Suc_0_iff)
  have m: "''https://github.com/lpsandaruwan/aicgen/releases/latest''
     \<in> set (App_hrefs \<lparr> isOpen = True \<rparr>
              (detect_platform ''Mozilla/5.0 (X11; Linux x86_64)'' (Installation_init 0 None)))"
    by (simp add: App_hrefs_def Installation_hrefs_def tab renderContent_hrefs_def)
  have a: "absolute_url ''https://github.com/lpsandaruwan/aicgen/releases/latest''"
    by (simp add: absolute_url_def)
  from m a external_links [OF m a] show ?thesis by (intro conjI)
qed

subsection \<open>The copy buttons\<close>

text \<open>
  C10. Where the browser provides \<^verbatim>\<open>navigator.clipboard\<close>, both copy buttons of the npm
  tab go through \<^verbatim>\<open>handleCopy\<close> and so through the one \<^verbatim>\<open>copied\<close> flag: a click on
  either sets it to true and starts a timeout that is due 2000 ms later and whose callback
  sets it to false (seen here on the freshly mounted component, where it is the only
  timer). Only the button of the npm install block shows the check icon when the flag is
  set; the button of the npx block shows the copy icon in every state. So after the npx
  command is copied, the check icon is on the npm install block.
\<close>

theorem copy_buttons_share_flag:
  assumes "clipboard s \<noteq> None"
  shows "copied (click_copy (npm_install_block s) s) \<and>
   copied (click_copy (npx_block s) s) \<and>
   pending (click_copy (npm_install_block s) s) =
     pending s @ [\<lparr> tid = next_id s, due = now s + 2000, callback = ResetCopied, every = None \<rparr>] \<and>
   pending (click_copy (npx_block s) s) =
     pending s @ [\<lparr> tid = next_id s, due = now s + 2000, callback = ResetCopied, every = None \<rparr>] \<and>
   fire browser Installation_run 0
       (click_copy (npx_block (Installation_init t (Some clip))) (Installation_init t (Some clip))) =
     Some \<lparr> now = t + 2000, next_id = 2, pending = [], activeTab = npm, copied = False,
            clipboard = Some ''npx @aicgen/aicgen init'' \<rparr> \<and>
   button_icon (npm_install_block s) = (if copied s then Check else Copy) \<and>
   button_icon (npx_block s) = Copy \<and>
   button_icon (npm_install_block (click_copy (npx_block s) s)) = Check \<and>
   button_icon (npx_block (click_copy (npx_block s) s)) = Copy"
proof -
  from assms obtain old where "clipboard s = Some old" by blast
  then show ?thesis
    by (simp add: click_copy_def handleCopy_def setTimeout_def npm_install_block_def npx_block_def
        Let_def fire_def next_timer_def Installation_init_def Installation_run_def)
qed

theorem copy_buttons_share_flag_witness:
  "clipboard (Installation_init 0 (Some '''')) \<noteq> None \<and>
   copied (click_copy (npx_block (Installation_init 0 (Some ''''))) (Installation_init 0 (Some ''''))) \<and>
   clipboard (click_copy (npx_block (Installation_init 0 (Some ''''))) (Installation_init 0 (Some ''''))) =
     Some ''npx @aicgen/aicgen init'' \<and>
   button_icon (npm_install_block
     (click_copy (npx_block (Installation_init 0 (Some ''''))) (Installation_init 0 (Some '''')))) = Check \<and>
   button_icon (npx_block
     (click_copy (npx_block (Installation_init 0 (Some ''''))) (Installation_init 0 (Some '''')))) = Copy"
proof -
  let ?s = "Installation_init 0 (Some '''')"
  have h: "clipboard ?s \<noteq> None"
    by (simp add: Installation_init_def)
  note c = copy_buttons_share_flag [OF h, where browser = FromCallback and t = 0 and clip = "''''"]
  have a: "copied (click_copy (npx_block ?s) ?s)"
    using c by (elim conjE)
  have b: "button_icon (npm_install_block (click_copy (npx_block ?s) ?s)) = Check"
    using c by (elim conjE)
  have d: "button_icon (npx_block (click_copy (npx_block ?s) ?s)) = Copy"
    using c by (elim conjE)
  have e: "clipboard (click_copy (npx_block ?s) ?s) = Some ''npx @aicgen/aicgen init''"
    by (simp add: click_copy_def handleCopy_def setTimeout_def npx_block_def Let_def
        Installation_init_def)
  from h a e b d show ?thesis by (intro conjI)
qed

text \<open>
  Where \<^verbatim>\<open>navigator.clipboard\<close> is undefined, \<^verbatim>\<open>handleCopy\<close> throws before it sets the
  flag: after a click on either button the flag is still false, no timeout was started,
  and the npm install block shows the copy icon.
\<close>

theorem copy_buttons_counterexample:
  "handleCopy ''npx @aicgen/aicgen init'' (Installation_init 0 None) = Inl TypeError \<and>
   \<not> copied (click_copy (npx_block (Installation_init 0 None)) (Installation_init 0 None)) \<and>
   \<not> copied (click_copy (npm_install_block (Installation_init 0 None)) (Installation_init 0 None)) \<and>
   pending (click_copy (npx_block (Installation_init 0 None)) (Installation_init 0 None)) = [] \<and>
   button_icon (npm_install_block
     (click_copy (npx_block (Installation_init 0 None)) (Installation_init 0 None))) = Copy"
  by (simp add: click_copy_def handleCopy_def npm_install_block_def npx_block_def
      Installation_init_def)

subsection \<open>The Terminal animation\<close>

lemma steps_sorted: "sorted_wrt (<) (map delay steps)"
  by (simp add: steps_def)

lemma steps_within_7000: "\<forall>st \<in> set steps. delay st \<le> 7000"
  by (simp add: steps_def)

lemma earliest_head: "\<forall>u \<in> set us. due t \<le> due u \<Longrightarrow> earliest t us = t"
  by (induction us) auto

lemma earliest_mem: "earliest t us \<in> set (t # us)"
proof (induction us arbitrary: t)
  case Nil
  show ?case by simp
next
  case (Cons u us)
  have "earliest (if due u < due t then u else t) us \<in> set ((if due u < due t then u else t) # us)"
    by (rule Cons.IH)
  then show ?case by (simp split: if_splits) blast+
qed

lemma schedule_step_simps [simp]:
  "now (schedule_step st s) = now s"
  "lines (schedule_step st s) = lines s"
  "loop (schedule_step st s) = loop s"
  "pending (schedule_step st s) =
     pending s @ [\<lparr> tid = next_id s, due = now s + delay st, callback = Reveal (step_text st), every = None \<rparr>]"
  "timeouts (schedule_step st s) = timeouts s @ [next_id s]"
  by (simp_all add: schedule_step_def setTimeout_def)

lemma schedule_all_fields:
  "now (foldl (\<lambda>s step. schedule_step step s) s xs) = now s \<and>
   lines (foldl (\<lambda>s step. schedule_step step s) s xs) = lines s \<and>
   loop (foldl (\<lambda>s step. schedule_step step s) s xs) = loop s"
  by (induction xs arbitrary: s) simp_all

lemma schedule_all_view:
  "map timer_view (pending (foldl (\<lambda>s step. schedule_step step s) s xs)) =
     map timer_view (pending s) @ map (\<lambda>st. (now s + delay st, Reveal (step_text st), None)) xs"
  by (induction xs arbitrary: s) (simp_all add: timer_view_def schedule_all_fields)

lemma schedule_all_known:
  "\<forall>t \<in> set (pending s). tid t \<in> set (timeouts s) \<or> tid t = l \<Longrightarrow>
   \<forall>t \<in> set (pending (foldl (\<lambda>s step. schedule_step step s) s xs)).
      tid t \<in> set (timeouts (foldl (\<lambda>s step. schedule_step step s) s xs)) \<or> tid t = l"
proof (induction xs arbitrary: s)
  case Nil
  then show ?case by simp
next
  case (Cons x xs)
  show ?case
    unfolding foldl_Cons
    by (rule Cons.IH) (use Cons.prems in auto)
qed

lemma schedule_all_timeouts_mono:
  "set (timeouts s) \<subseteq> set (timeouts (foldl (\<lambda>s step. schedule_step step s) s xs))"
  by (induction xs arbitrary: s) (simp, force)

lemma runAnimation_fields [simp]:
  "now (runAnimation s) = now s" "lines (runAnimation s) = []" "loop (runAnimation s) = loop s"
  by (simp_all add: runAnimation_def schedule_all_fields)

lemma runAnimation_view:
  "map timer_view (pending (runAnimation s)) =
     map timer_view (pending s) @ map (\<lambda>st. (now s + delay st, Reveal (step_text st), None)) steps"
  by (simp add: runAnimation_def schedule_all_view)

lemma runAnimation_known:
  "\<forall>t \<in> set (pending s). tid t \<in> set (timeouts s) \<or> tid t = l \<Longrightarrow>
   \<forall>t \<in> set (pending (runAnimation s)). tid t \<in> set (timeouts (runAnimation s)) \<or> tid t = l"
  unfolding runAnimation_def by (rule schedule_all_known) simp

lemma runAnimation_timeouts_mono: "set (timeouts s) \<subseteq> set (timeouts (runAnimation s))"
  unfolding runAnimation_def using schedule_all_timeouts_mono [of "s\<lparr>lines := []\<rparr>" steps] by simp

lemma mount_view:
  "pending s = [] \<Longrightarrow>
   map timer_view (pending (Terminal_mount s)) =
     map (\<lambda>st. (now s + delay st, Reveal (step_text st), None)) steps @
     [(now s + 9000, RunAnimation, Some 9000)]"
  using runAnimation_view [of "s\<lparr>timeouts := []\<rparr>"]
  by (simp add: Terminal_mount_def setInterval_def Let_def timer_view_def)

lemma mount_lines: "lines (Terminal_mount s) = []"
  by (simp add: Terminal_mount_def setInterval_def Let_def)

lemma known_init: "Terminal_known (Terminal_init t i)"
  by (simp add: Terminal_known_def Terminal_init_def)

lemma known_mount:
  assumes "pending s = []"
  shows "Terminal_known (Terminal_mount s)"
proof -
  let ?s2 = "runAnimation (s\<lparr>timeouts := []\<rparr>)"
  have m: "Terminal_mount s =
    ?s2\<lparr> pending := pending ?s2 @ [\<lparr> tid = next_id ?s2, due = now ?s2 + 9000, callback = RunAnimation, every = Some 9000 \<rparr>],
         next_id := Suc (next_id ?s2), loop := next_id ?s2 \<rparr>"
    by (simp add: Terminal_mount_def setInterval_def Let_def)
  have kn: "\<forall>t \<in> set (pending ?s2). tid t \<in> set (timeouts ?s2) \<or> tid t = next_id ?s2"
    by (rule runAnimation_known) (simp add: assms)
  show ?thesis
    unfolding Terminal_known_def m using kn by auto
qed

lemma inv_init: "Terminal_inv policy (Terminal_init t i)"
  unfolding Terminal_inv_def
  by (rule exI [of _ 0], rule exI [of _ 0], rule exI [of _ 0]) (simp add: Terminal_init_def)

lemma inv_mount:
  assumes "pending s = []"
  shows "Terminal_inv policy (Terminal_mount s)"
  unfolding Terminal_inv_def
  by (rule exI [of _ 0], rule exI [of _ "now s"], rule exI [of _ "now s + 9000"])
     (simp add: mount_view [OF assms] mount_lines)

lemma clear_all_pending:
  "pending (foldl (\<lambda>s i. clearTimeout i s) s ids) = filter (\<lambda>t. tid t \<notin> set ids) (pending s)"
  by (induction ids arbitrary: s) (simp_all add: clearTimeout_def conj_commute)

lemma clear_all_lines:
  "lines (foldl (\<lambda>s i. clearTimeout i s) s ids) = lines s"
  by (induction ids arbitrary: s) (simp_all add: clearTimeout_def)

lemma cleanup_pending:
  "pending (Terminal_cleanup s) =
     filter (\<lambda>t. tid t \<noteq> loop s \<and> tid t \<notin> set (timeouts s)) (pending s)"
  unfolding Terminal_cleanup_def clear_all_pending clearInterval_def
  by (simp add: clearTimeout_def)

lemma cleanup_lines: "lines (Terminal_cleanup s) = lines s"
  unfolding Terminal_cleanup_def clear_all_lines clearInterval_def
  by (simp add: clearTimeout_def)

lemma known_cleanup_pending:
  assumes "Terminal_known s"
  shows "pending (Terminal_cleanup s) = []"
  using assms unfolding Terminal_known_def
  by (auto simp add: cleanup_pending filter_empty_conv)

lemma known_cleanup:
  assumes "Terminal_known s"
  shows "Terminal_known (Terminal_cleanup s)"
  by (simp add: Terminal_known_def known_cleanup_pending [OF assms])

lemma inv_cleanup:
  assumes "Terminal_inv policy s" and "Terminal_known s"
  shows "Terminal_inv policy (Terminal_cleanup s)"
proof -
  from assms(1) obtain k where "k \<le> length steps" "lines s = take k (map step_text steps)"
    unfolding Terminal_inv_def by blast
  then show ?thesis
    unfolding Terminal_inv_def
    by (intro exI [of _ k] exI [of _ 0])
       (simp add: known_cleanup_pending [OF assms(2)] cleanup_lines)
qed

lemma Terminal_run_known:
  assumes "\<forall>u \<in> set (pending s). tid u \<in> set (timeouts s) \<or> tid u = l"
  shows "\<forall>u \<in> set (pending (Terminal_run cb s)). tid u \<in> set (timeouts (Terminal_run cb s)) \<or> tid u = l"
proof (cases cb)
  case (Reveal x)
  then show ?thesis using assms by (simp add: Terminal_run_def)
next
  case RunAnimation
  then show ?thesis using runAnimation_known [OF assms] by (simp add: Terminal_run_def)
qed

lemma Terminal_run_frame:
  "loop (Terminal_run cb s) = loop s" "now (Terminal_run cb s) = now s"
  by (cases cb; simp add: Terminal_run_def)+

lemma Terminal_run_timeouts_mono: "set (timeouts s) \<subseteq> set (timeouts (Terminal_run cb s))"
proof (cases cb)
  case (Reveal x)
  then show ?thesis by (simp add: Terminal_run_def)
next
  case RunAnimation
  then show ?thesis using runAnimation_timeouts_mono [of s] by (simp add: Terminal_run_def)
qed

lemma known_fire:
  assumes kn: "Terminal_known s" and f: "fire policy Terminal_run late s = Some s'"
  shows "Terminal_known s'"
proof -
  from f obtain p ps where pp: "pending s = p # ps"
    by (cases "pending s") (simp_all add: fire_def next_timer_def)
  define t where "t = earliest p ps"
  have nt: "next_timer (pending s) = Some t"
    by (simp add: next_timer_def pp t_def)
  have tin: "t \<in> set (pending s)"
    unfolding t_def pp by (rule earliest_mem)
  define s1 where "s1 = s\<lparr> now := max (now s) (due t) + late, pending := remove1 t (pending s) \<rparr>"
  define w2 where "w2 = Terminal_run (callback t) s1"
  have "\<forall>u \<in> set (pending s1). tid u \<in> set (timeouts s1) \<or> tid u = loop s"
  proof
    fix u assume "u \<in> set (pending s1)"
    then have "u \<in> set (remove1 t (pending s))" by (simp add: s1_def)
    then have "u \<in> set (pending s)" by (rule subsetD [OF set_remove1_subset])
    with kn show "tid u \<in> set (timeouts s1) \<or> tid u = loop s"
      unfolding Terminal_known_def by (simp add: s1_def)
  qed
  then have k2: "\<forall>u \<in> set (pending w2). tid u \<in> set (timeouts w2) \<or> tid u = loop s"
    unfolding w2_def by (rule Terminal_run_known)
  have lp: "loop w2 = loop s"
    by (simp add: w2_def Terminal_run_frame s1_def)
  have "set (timeouts s) \<subseteq> set (timeouts w2)"
    using Terminal_run_timeouts_mono [of s1 "callback t"] by (simp add: w2_def s1_def)
  moreover from kn tin have "tid t \<in> set (timeouts s) \<or> tid t = loop s"
    unfolding Terminal_known_def by (rule bspec)
  ultimately have kt: "tid t \<in> set (timeouts w2) \<or> tid t = loop s" by blast
  show ?thesis
  proof (cases "every t")
    case None
    with f have "s' = w2"
      unfolding fire_def nt w2_def s1_def by (auto simp add: Let_def)
    then show ?thesis
      unfolding Terminal_known_def using k2 lp by simp
  next
    case (Some ms)
    with f obtain d where "s' = w2\<lparr> pending := pending w2 @ [t\<lparr> due := d \<rparr>] \<rparr>"
      unfolding fire_def nt w2_def s1_def by (auto simp add: Let_def)
    then show ?thesis
      unfolding Terminal_known_def using k2 kt lp by simp
  qed
qed

lemma reachable_known: "Terminal_reachable policy allowed s \<Longrightarrow> Terminal_known s"
proof (induction rule: Terminal_reachable.induct)
  case (rendered t i)
  show ?case by (rule known_init)
next
  case (mounted t i)
  show ?case by (rule known_mount) (simp add: Terminal_init_def)
next
  case (fired s late s')
  from fired.IH fired.hyps(3) show ?case by (rule known_fire)
next
  case (unmounted s)
  from unmounted.IH show ?case by (rule known_cleanup)
next
  case (remounted s)
  from remounted.IH show ?case by (intro known_mount known_cleanup_pending)
qed

lemma later_steps_due:
  assumes "k < length steps"
  shows "\<forall>st \<in> set (drop (Suc k) steps). delay (steps ! k) < delay st"
proof -
  have "sorted_wrt (<) (drop k (map delay steps))"
    using steps_sorted by (rule sorted_wrt_drop)
  then have "sorted_wrt (<) (map delay (steps ! k # drop (Suc k) steps))"
    using assms by (simp add: drop_map Cons_nth_drop_Suc)
  then show ?thesis by simp
qed

lemma fire_step:
  assumes inv: "Terminal_inv policy s" and f: "fire policy Terminal_run late s = Some s'"
  shows "(length (lines s) < length steps \<and>
            lines s' = lines s @ [step_text (steps ! length (lines s))] \<or>
          lines s = map step_text steps \<and> lines s' = [] \<and>
            (policy = FromCallback \<longrightarrow>
               map timer_view (pending s') =
                 map (\<lambda>st. (now s' + delay st, Reveal (step_text st), None)) steps @
                 [(now s' + 9000, RunAnimation, Some 9000)])) \<and>
         (restarts_in_time policy s late \<longrightarrow> Terminal_inv policy s')"
proof -
  from f obtain p ps where pp: "pending s = p # ps"
    by (cases "pending s") (simp_all add: fire_def next_timer_def)
  with inv obtain k base "next" where
    k: "k \<le> length steps" and
    L: "lines s = take k (map step_text steps)" and
    V: "map timer_view (p # ps) =
          map (\<lambda>st. (base + delay st, Reveal (step_text st), None)) (drop k steps) @
          [(next, RunAnimation, Some 9000)]" and
    N: "base + 7000 < next" "policy = FromCallback \<longrightarrow> next = base + 9000"
    unfolding Terminal_inv_def by auto
  show ?thesis
  proof (cases "k < length steps")
    case True
    then have D: "drop k steps = steps ! k # drop (Suc k) steps"
      by (simp add: Cons_nth_drop_Suc)
    from V have vp: "timer_view p = (base + delay (steps ! k), Reveal (step_text (steps ! k)), None)"
      and vps: "map timer_view ps =
        map (\<lambda>st. (base + delay st, Reveal (step_text st), None)) (drop (Suc k) steps) @
        [(next, RunAnimation, Some 9000)]"
      unfolding D by simp_all
    from vp have p: "due p = base + delay (steps ! k)" "callback p = Reveal (step_text (steps ! k))"
      "every p = None"
      by (simp_all add: timer_view_def)
    have "map due ps = map fst (map timer_view ps)"
      by (simp add: timer_view_def)
    also have "\<dots> = map (\<lambda>st. base + delay st) (drop (Suc k) steps) @ [next]"
      unfolding vps by simp
    finally have dues: "map due ps = map (\<lambda>st. base + delay st) (drop (Suc k) steps) @ [next]" .
    have "steps ! k \<in> set steps" using True by simp
    with steps_within_7000 have "delay (steps ! k) \<le> 7000" by blast
    with N(1) have lt: "base + delay (steps ! k) \<le> next" by simp
    have "\<forall>d \<in> set (map due ps). due p \<le> d"
      unfolding dues using later_steps_due [OF True] lt p(1) by auto
    then have "\<forall>u \<in> set ps. due p \<le> due u" by simp
    then have e: "earliest p ps = p" by (rule earliest_head)
    from f have s': "s' = s\<lparr> now := max (now s) (due p) + late, pending := ps,
                           lines := lines s @ [step_text (steps ! k)] \<rparr>"
      by (simp add: fire_def next_timer_def pp e p Terminal_run_def Let_def)
    have L': "lines s' = take (Suc k) (map step_text steps)"
      using True by (simp add: s' L take_Suc_conv_app_nth)
    have F': "pending s' = ps"
      by (simp add: s')
    have "Terminal_inv policy s'"
      unfolding Terminal_inv_def
      apply (rule exI [of _ "Suc k"], rule exI [of _ base], rule exI [of _ "next"])
      using True N by (simp add: L' F' vps)
    moreover have "length (lines s) = k"
      using True by (simp add: L)
    moreover have "lines s' = lines s @ [step_text (steps ! k)]"
      by (simp add: s')
    ultimately show ?thesis using True by simp
  next
    case False
    with k have kl: "k = length steps" by simp
    from V have ps: "ps = []" and vp: "timer_view p = (next, RunAnimation, Some 9000)"
      by (simp_all add: kl)
    from vp have p: "callback p = RunAnimation" "every p = Some 9000" and dp: "due p = next"
      by (simp_all add: timer_view_def)
    define T where "T = max (now s) (due p) + late"
    define again where
      "again = (case policy of FromCallback \<Rightarrow> T + 9000 | FixedCadence \<Rightarrow> due p + 9000)"
    define w2 where "w2 = runAnimation (s\<lparr> now := T, pending := [] \<rparr>)"
    have w2: "now w2 = T" "lines w2 = []"
      "map timer_view (pending w2) = map (\<lambda>st. (T + delay st, Reveal (step_text st), None)) steps"
      using runAnimation_view [of "s\<lparr> now := T, pending := [] \<rparr>"] by (simp_all add: w2_def)
    from f have "s' = w2\<lparr> pending := pending w2 @ [p\<lparr> due := again \<rparr>] \<rparr>"
      unfolding w2_def again_def T_def
      by (auto simp add: fire_def next_timer_def pp ps p Terminal_run_def Let_def
          split: interval_policy.splits)
    then have s': "now s' = T" "lines s' = []"
      "map timer_view (pending s') =
         map (\<lambda>st. (T + delay st, Reveal (step_text st), None)) steps @
         [(again, RunAnimation, Some 9000)]"
      using p by (simp_all add: w2 timer_view_def)
    have a1: "policy = FromCallback \<longrightarrow> again = T + 9000"
      by (simp add: again_def)
    have a2: "restarts_in_time policy s late \<longrightarrow> T + 7000 < again"
      by (cases policy)
         (simp_all add: again_def restarts_in_time_def next_timer_def pp ps p T_def)
    have "restarts_in_time policy s late \<longrightarrow> Terminal_inv policy s'"
    proof
      assume "restarts_in_time policy s late"
      with a2 have "T + 7000 < again" by simp
      then show "Terminal_inv policy s'"
        unfolding Terminal_inv_def
        apply (rule_tac x = 0 in exI, rule_tac x = T in exI, rule_tac x = again in exI)
        using a1 by (simp add: s')
    qed
    moreover have "lines s = map step_text steps"
      by (simp add: L kl)
    moreover have "policy = FromCallback \<longrightarrow>
               map timer_view (pending s') =
                 map (\<lambda>st. (now s' + delay st, Reveal (step_text st), None)) steps @
                 [(now s' + 9000, RunAnimation, Some 9000)]"
      using a1 by (simp add: s')
    ultimately show ?thesis using s'(2) by simp
  qed
qed

lemma reachable_inv:
  assumes "Terminal_reachable policy allowed s"
    and "\<And>s late. allowed s late \<Longrightarrow> restarts_in_time policy s late"
  shows "Terminal_inv policy s"
  using assms(1)
proof (induction rule: Terminal_reachable.induct)
  case (rendered t i)
  show ?case by (rule inv_init)
next
  case (mounted t i)
  show ?case by (rule inv_mount) (simp add: Terminal_init_def)
next
  case (fired s late s')
  from fired.hyps(2) have "restarts_in_time policy s late" by (rule assms(2))
  with fire_step [OF fired.IH fired.hyps(3)] show ?case by blast
next
  case (unmounted s)
  from unmounted.IH reachable_known [OF unmounted.hyps] show ?case by (rule inv_cleanup)
next
  case (remounted s)
  from reachable_known [OF remounted.hyps] show ?case
    by (intro inv_mount known_cleanup_pending)
qed

lemma turns_reachable:
  "Terminal_reachable policy allowed s \<Longrightarrow> turns policy allowed lates s = Some s' \<Longrightarrow>
   Terminal_reachable policy allowed s'"
proof (induction lates arbitrary: s)
  case Nil
  then show ?case by simp
next
  case (Cons late lates)
  from Cons.prems(2) obtain s1 where
    a: "allowed s late" and
    f: "fire policy Terminal_run late s = Some s1" and
    r: "turns policy allowed lates s1 = Some s'"
    by (auto split: option.splits if_splits)
  from Cons.prems(1) a f have "Terminal_reachable policy allowed s1"
    by (rule Terminal_reachable.fired)
  then show ?case using r by (rule Cons.IH)
qed

lemmas Terminal_eval =
  Terminal_example_def Terminal_mount_def Terminal_init_def runAnimation_def steps_def
  schedule_step_def setTimeout_def setInterval_def Let_def fire_def next_timer_def Terminal_run_def
  any_lateness_def restarts_in_time_def

lemma example_reachable:
  assumes "turns policy allowed lates (Terminal_mount (Terminal_init 0 1)) \<noteq> None"
  shows "Terminal_reachable policy allowed (Terminal_example policy allowed lates)"
proof -
  from assms obtain x where
    x: "turns policy allowed lates (Terminal_mount (Terminal_init 0 1)) = Some x"
    by blast
  have "Terminal_reachable policy allowed x"
    using Terminal_reachable.mounted x by (rule turns_reachable)
  then show ?thesis unfolding Terminal_example_def x option.sel .
qed

text \<open>
  C1. The delays of the steps increase strictly, from 500 to 7000. In a browser in which
  the animation restarts in time (the next run of the interval is counted from the run of
  its callback, or every callback of the interval runs less than 2000 ms after it was
  due), in every state that the timer-driven animation reaches, the lines shown are a
  prefix of the texts of the steps, in the order of the list; and a turn of the event loop
  either empties the lines (the loop starts again) or adds exactly the text of the next
  step.
\<close>

theorem lines_prefix_of_steps:
  assumes "Terminal_reachable policy (restarts_in_time policy) s"
  shows "sorted_wrt (<) (map delay steps) \<and> hd (map delay steps) = 500 \<and>
         last (map delay steps) = 7000 \<and>
         prefix (lines s) (map step_text steps) \<and>
         (\<forall>late s'. fire policy Terminal_run late s = Some s' \<longrightarrow>
            lines s' = [] \<or>
            length (lines s) < length steps \<and>
            lines s' = lines s @ [step_text (steps ! length (lines s))])"
proof -
  from assms have inv: "Terminal_inv policy s" by (rule reachable_inv)
  then obtain k where "lines s = take k (map step_text steps)"
    unfolding Terminal_inv_def by blast
  then have "prefix (lines s) (map step_text steps)"
    by (simp add: take_is_prefix)
  moreover have "hd (map delay steps) = 500" "last (map delay steps) = 7000"
    by (simp_all add: steps_def)
  moreover have "\<forall>late s'. fire policy Terminal_run late s = Some s' \<longrightarrow>
            lines s' = [] \<or>
            length (lines s) < length steps \<and>
            lines s' = lines s @ [step_text (steps ! length (lines s))]"
    using fire_step [OF inv] by blast
  ultimately show ?thesis using steps_sorted by simp
qed

theorem lines_prefix_of_steps_witness:
  "Terminal_reachable FixedCadence (restarts_in_time FixedCadence)
     (Terminal_example FixedCadence (restarts_in_time FixedCadence)
        [0, 0, 0, 0, 30, 0, 0, 0, 0, 0, 1500, 0, 0, 0]) \<and>
   lines (Terminal_example FixedCadence (restarts_in_time FixedCadence)
        [0, 0, 0, 0, 30, 0, 0, 0, 0, 0, 1500, 0, 0, 0]) =
     [''> navigate to project...'', ''> aicgen init'',
      check_mark @ ''  Analyzing project structure...''] \<and>
   prefix (lines (Terminal_example FixedCadence (restarts_in_time FixedCadence)
        [0, 0, 0, 0, 30, 0, 0, 0, 0, 0, 1500, 0, 0, 0])) (map step_text steps) \<and>
   fire FixedCadence Terminal_run 5 (Terminal_example FixedCadence (restarts_in_time FixedCadence)
        [0, 0, 0, 0, 30, 0, 0, 0, 0, 0, 1500, 0, 0, 0]) \<noteq> None \<and>
   lines (the (fire FixedCadence Terminal_run 5
       (Terminal_example FixedCadence (restarts_in_time FixedCadence)
          [0, 0, 0, 0, 30, 0, 0, 0, 0, 0, 1500, 0, 0, 0]))) =
     lines (Terminal_example FixedCadence (restarts_in_time FixedCadence)
        [0, 0, 0, 0, 30, 0, 0, 0, 0, 0, 1500, 0, 0, 0]) @
     [''? Select AI Assistant '' @ chevron @ '' Claude Code'']"
proof -
  let ?S = "Terminal_example FixedCadence (restarts_in_time FixedCadence)
        [0, 0, 0, 0, 30, 0, 0, 0, 0, 0, 1500, 0, 0, 0]"
  have "turns FixedCadence (restarts_in_time FixedCadence)
          [0, 0, 0, 0, 30, 0, 0, 0, 0, 0, 1500, 0, 0, 0] (Terminal_mount (Terminal_init 0 1)) \<noteq> None"
    by (simp add: Terminal_eval)
  then have r: "Terminal_reachable FixedCadence (restarts_in_time FixedCadence) ?S"
    by (rule example_reachable)
  note c = lines_prefix_of_steps [OF r]
  have p: "prefix (lines ?S) (map step_text steps)"
    using c by (elim conjE)
  have l: "lines ?S =
     [''> navigate to project...'', ''> aicgen init'',
      check_mark @ ''  Analyzing project structure...'']"
    by (simp add: Terminal_eval)
  have f: "fire FixedCadence Terminal_run 5 ?S \<noteq> None"
    by (simp add: Terminal_eval)
  have n: "lines (the (fire FixedCadence Terminal_run 5 ?S)) =
     lines ?S @ [''? Select AI Assistant '' @ chevron @ '' Claude Code'']"
    by (simp add: Terminal_eval)
  from r l p f n show ?thesis by (intro conjI)
qed

text \<open>
  The effect does not cancel the timeouts of an iteration when the next one starts. In a
  browser that counts the 9000 ms from the time the interval was due, a callback of the
  interval that runs 3100 ms late starts timeouts of which the last four are due after
  the next restart: the restart at 18000 empties the lines, and at 18100 the seventh text
  of the old iteration is the only line shown.
\<close>

theorem lines_prefix_counterexample:
  "Terminal_reachable FixedCadence any_lateness
     (Terminal_example FixedCadence any_lateness
        [0, 0, 0, 0, 0, 0, 0, 0, 0, 0, 3100, 0, 0, 0, 0, 0, 0, 0, 0]) \<and>
   lines (Terminal_example FixedCadence any_lateness
        [0, 0, 0, 0, 0, 0, 0, 0, 0, 0, 3100, 0, 0, 0, 0, 0, 0, 0, 0]) =
     [''  + .claude/settings.json''] \<and>
   \<not> prefix (lines (Terminal_example FixedCadence any_lateness
        [0, 0, 0, 0, 0, 0, 0, 0, 0, 0, 3100, 0, 0, 0, 0, 0, 0, 0, 0])) (map step_text steps)"
proof -
  let ?S = "Terminal_example FixedCadence any_lateness
        [0, 0, 0, 0, 0, 0, 0, 0, 0, 0, 3100, 0, 0, 0, 0, 0, 0, 0, 0]"
  have "turns FixedCadence any_lateness
          [0, 0, 0, 0, 0, 0, 0, 0, 0, 0, 3100, 0, 0, 0, 0, 0, 0, 0, 0]
          (Terminal_mount (Terminal_init 0 1)) \<noteq> None"
    by (simp add: Terminal_eval)
  then have r: "Terminal_reachable FixedCadence any_lateness ?S"
    by (rule example_reachable)
  have l: "lines ?S = [''  + .claude/settings.json'']"
    by (simp add: Terminal_eval)
  have "\<not> prefix [''  + .claude/settings.json''] (map step_text steps)"
    by (simp add: steps_def)
  then have n: "\<not> prefix (lines ?S) (map step_text steps)"
    unfolding l .
  from r l n show ?thesis by (intro conjI)
qed

text \<open>
  C2. One run of \<^verbatim>\<open>runAnimation\<close> empties the lines and starts one timeout for every step,
  due after the delay of the step; mounting runs it once and starts the interval of
  9000 ms. When the interval is counted from the run of its callback: whenever a turn of
  the event loop leaves the lines empty, all texts had been shown, the whole list is
  scheduled again from that moment, and the next restart is due 9000 ms later. In every
  reachable state, in every browser, the cleanup leaves no active timer, whichever
  iteration of the loop started it; it keeps the lines as they are, and afterwards no
  callback runs any more.
\<close>

theorem loop_and_cleanup:
  assumes "Terminal_reachable policy allowed s"
  shows "lines (runAnimation s) = [] \<and>
         map timer_view (pending (runAnimation s)) =
           map timer_view (pending s) @
           map (\<lambda>st. (now s + delay st, Reveal (step_text st), None)) steps \<and>
         lines (Terminal_mount (Terminal_init t i)) = [] \<and>
         map timer_view (pending (Terminal_mount (Terminal_init t i))) =
           map (\<lambda>st. (t + delay st, Reveal (step_text st), None)) steps @
           [(t + 9000, RunAnimation, Some 9000)] \<and>
         (policy = FromCallback \<longrightarrow>
            (\<forall>late s'. fire policy Terminal_run late s = Some s' \<longrightarrow> lines s' = [] \<longrightarrow>
               lines s = map step_text steps \<and>
               map timer_view (pending s') =
                 map (\<lambda>st. (now s' + delay st, Reveal (step_text st), None)) steps @
                 [(now s' + 9000, RunAnimation, Some 9000)])) \<and>
         pending (Terminal_cleanup s) = [] \<and>
         lines (Terminal_cleanup s) = lines s \<and>
         (\<forall>browser late. fire browser Terminal_run late (Terminal_cleanup s) = None)"
proof -
  from assms have kn: "Terminal_known s" by (rule reachable_known)
  have "map timer_view (pending (Terminal_mount (Terminal_init t i))) =
           map (\<lambda>st. (t + delay st, Reveal (step_text st), None)) steps @
           [(t + 9000, RunAnimation, Some 9000)]"
    using mount_view [of "Terminal_init t i"] by (simp add: Terminal_init_def)
  moreover have "policy = FromCallback \<longrightarrow>
            (\<forall>late s'. fire policy Terminal_run late s = Some s' \<longrightarrow> lines s' = [] \<longrightarrow>
               lines s = map step_text steps \<and>
               map timer_view (pending s') =
                 map (\<lambda>st. (now s' + delay st, Reveal (step_text st), None)) steps @
                 [(now s' + 9000, RunAnimation, Some 9000)])"
  proof
    assume fc: "policy = FromCallback"
    have "Terminal_inv policy s"
      using assms by (rule reachable_inv) (simp add: fc restarts_in_time_def)
    from fire_step [OF this] fc
    show "\<forall>late s'. fire policy Terminal_run late s = Some s' \<longrightarrow> lines s' = [] \<longrightarrow>
               lines s = map step_text steps \<and>
               map timer_view (pending s') =
                 map (\<lambda>st. (now s' + delay st, Reveal (step_text st), None)) steps @
                 [(now s' + 9000, RunAnimation, Some 9000)]"
      by fastforce
  qed
  moreover have c: "pending (Terminal_cleanup s) = []"
    using kn by (rule known_cleanup_pending)
  moreover have "\<forall>browser late. fire browser Terminal_run late (Terminal_cleanup s) = None"
    by (simp add: fire_def next_timer_def c)
  ultimately show ?thesis
    by (simp add: runAnimation_view mount_lines cleanup_lines)
qed

theorem loop_and_cleanup_witness:
  "Terminal_reachable FromCallback any_lateness
     (Terminal_example FromCallback any_lateness [0, 0, 0, 0, 30, 0, 0, 0, 0, 0]) \<and>
   fire FromCallback Terminal_run 12
     (Terminal_example FromCallback any_lateness [0, 0, 0, 0, 30, 0, 0, 0, 0, 0]) \<noteq> None \<and>
   lines (the (fire FromCallback Terminal_run 12
     (Terminal_example FromCallback any_lateness [0, 0, 0, 0, 30, 0, 0, 0, 0, 0]))) = [] \<and>
   lines (Terminal_example FromCallback any_lateness [0, 0, 0, 0, 30, 0, 0, 0, 0, 0]) =
     map step_text steps \<and>
   map due (pending (the (fire FromCallback Terminal_run 12
     (Terminal_example FromCallback any_lateness [0, 0, 0, 0, 30, 0, 0, 0, 0, 0])))) =
     [9512, 10512, 11512, 12512, 13512, 14512, 15012, 15212, 15412, 16012, 18012] \<and>
   Terminal_reachable FromCallback any_lateness
     (Terminal_example FromCallback any_lateness [0, 0, 0, 0, 30, 0, 0, 0, 0, 0, 12, 0, 0]) \<and>
   map tid (pending
     (Terminal_example FromCallback any_lateness [0, 0, 0, 0, 30, 0, 0, 0, 0, 0, 12, 0, 0])) =
     [14, 15, 16, 17, 18, 19, 20, 21, 11] \<and>
   pending (Terminal_cleanup
     (Terminal_example FromCallback any_lateness [0, 0, 0, 0, 30, 0, 0, 0, 0, 0, 12, 0, 0])) = [] \<and>
   fire FromCallback Terminal_run 0 (Terminal_cleanup
     (Terminal_example FromCallback any_lateness [0, 0, 0, 0, 30, 0, 0, 0, 0, 0, 12, 0, 0])) = None"
proof -
  let ?S10 = "Terminal_example FromCallback any_lateness [0, 0, 0, 0, 30, 0, 0, 0, 0, 0]"
  let ?S13 = "Terminal_example FromCallback any_lateness [0, 0, 0, 0, 30, 0, 0, 0, 0, 0, 12, 0, 0]"
  have "turns FromCallback any_lateness [0, 0, 0, 0, 30, 0, 0, 0, 0, 0]
          (Terminal_mount (Terminal_init 0 1)) \<noteq> None"
    by (simp add: Terminal_eval)
  then have r10: "Terminal_reachable FromCallback any_lateness ?S10"
    by (rule example_reachable)
  have "turns FromCallback any_lateness [0, 0, 0, 0, 30, 0, 0, 0, 0, 0, 12, 0, 0]
          (Terminal_mount (Terminal_init 0 1)) \<noteq> None"
    by (simp add: Terminal_eval)
  then have r13: "Terminal_reachable FromCallback any_lateness ?S13"
    by (rule example_reachable)
  have f: "fire FromCallback Terminal_run 12 ?S10 \<noteq> None"
    by (simp add: Terminal_eval)
  have e: "lines (the (fire FromCallback Terminal_run 12 ?S10)) = []"
    by (simp add: Terminal_eval)
  have "FromCallback = FromCallback \<longrightarrow>
          (\<forall>late s'. fire FromCallback Terminal_run late ?S10 = Some s' \<longrightarrow> lines s' = [] \<longrightarrow>
            lines ?S10 = map step_text steps \<and>
            map timer_view (pending s') =
              map (\<lambda>st. (now s' + delay st, Reveal (step_text st), None)) steps @
              [(now s' + 9000, RunAnimation, Some 9000)])"
    using loop_and_cleanup [OF r10, where t = 0 and i = 1] by (elim conjE)
  from this [rule_format, OF refl option.collapse [OF f, symmetric] e]
  have a: "lines ?S10 = map step_text steps"
    by (elim conjE)
  have d: "map due (pending (the (fire FromCallback Terminal_run 12 ?S10))) =
     [9512, 10512, 11512, 12512, 13512, 14512, 15012, 15212, 15412, 16012, 18012]"
    by (simp add: Terminal_eval)
  have i: "map tid (pending ?S13) = [14, 15, 16, 17, 18, 19, 20, 21, 11]"
    by (simp add: Terminal_eval)
  note c = loop_and_cleanup [OF r13, where t = 0 and i = 1]
  have p: "pending (Terminal_cleanup ?S13) = []"
    using c by (elim conjE)
  have "\<forall>browser late. fire browser Terminal_run late (Terminal_cleanup ?S13) = None"
    using c by (elim conjE)
  then have n: "fire FromCallback Terminal_run 0 (Terminal_cleanup ?S13) = None"
    by (elim allE)
  from r10 f e a d r13 i p n show ?thesis by (intro conjI)
qed

end
